theory Spec2Isabelle
  imports Main
begin

section \<open>JavaScript values\<close>

text \<open>
  The directive of \<^verbatim>\<open>command.directive.ts\<close> handles values of unknown type
  (\<^verbatim>\<open>commandParams: unknown | unknown[]\<close>): it tests them for truthiness and with
  \<^verbatim>\<open>Array.isArray\<close>. Numbers are kept as integers plus \<open>JNaN\<close>; every other
  double is truthy, like a non-zero integer. An object is an opaque reference.
\<close>

datatype jsval =
    JUndefined
  | JNull
  | JBool bool
  | JNum int
  | JNaN
  | JStr string
  | JArr "jsval list"
  | JObj nat

text \<open>Truthiness, as \<^verbatim>\<open>!x\<close> and \<^verbatim>\<open>||\<close> see it.\<close>

fun js_truthy :: "jsval \<Rightarrow> bool" where
  "js_truthy JUndefined = False"
| "js_truthy JNull = False"
| "js_truthy (JBool b) = b"
| "js_truthy (JNum n) = (n \<noteq> 0)"
| "js_truthy JNaN = False"
| "js_truthy (JStr s) = (s \<noteq> [])"
| "js_truthy (JArr xs) = True"
| "js_truthy (JObj r) = True"

text \<open>\<^verbatim>\<open>a || b\<close>\<close>

definition js_or :: "jsval \<Rightarrow> jsval \<Rightarrow> jsval" where
  "js_or a b = (if js_truthy a then a else b)"

text \<open>
  A function value takes its \<^verbatim>\<open>this\<close> and its argument list.
  \<^verbatim>\<open>f.bind(thisArg, ...bound)\<close> fixes \<^verbatim>\<open>this\<close> and puts the bound arguments in
  front of those of the call.
\<close>

type_synonym 'r js_function = "jsval \<Rightarrow> jsval list \<Rightarrow> 'r"

definition js_bind :: "'r js_function \<Rightarrow> jsval \<Rightarrow> jsval list \<Rightarrow> 'r js_function" where
  "js_bind f thisArg bound = (\<lambda>_ args. f thisArg (bound @ args))"

datatype js_error = JsError string | JsTypeError

section \<open>The Command\<close>

text \<open>Modelled from the spec: the class \<^verbatim>\<open>Command\<close> (imported from \<^verbatim>\<open>./command\<close>) is
  not among the sources; only its caller, the directive, is. The state below follows the
  data model of the specification: the action, the executability gate (omitted, a fixed
  boolean, or a stream with a current value), \<open>allowConcurrentExecution\<close>, the
  \<open>isAsync\<close> flag, the executing flag and the derived \<open>canExecute\<close> value. The values
  pushed to observers of the two signals are kept in \<open>isExecuting_emitted\<close> and
  \<open>canExecute_emitted\<close>, the invocations of the action in \<open>calls\<close> (arguments and
  returned value), the failures surfaced to the caller in \<open>failures\<close>.
\<close>

datatype executability = Omitted | Fixed bool | Stream bool

fun gate_now :: "executability \<Rightarrow> bool" where
  "gate_now Omitted = True"
| "gate_now (Fixed b) = b"
| "gate_now (Stream b) = b"

datatype lifecycle = Created | Subscribed | Unsubscribed

datatype outcome = Resolved | Rejected jsval

record Command =
  action :: "jsval js_function"
  executabilityGate :: executability
  allowConcurrentExecution :: bool
  cmd_isAsync :: bool
  isExecuting :: bool
  cmd_canExecute :: bool
  phase :: lifecycle
  pending :: nat
  calls :: "(jsval list \<times> jsval) list"
  failures :: "jsval list"
  isExecuting_emitted :: "bool list"
  canExecute_emitted :: "bool list"

text \<open>Modelled from the spec: construction with
  \<^verbatim>\<open>{action, executability?, allowConcurrentExecution?, isAsync?}\<close>. The command starts
  Idle; an omitted gate means always executable.
\<close>

definition new_Command :: "jsval js_function \<Rightarrow> executability \<Rightarrow> bool \<Rightarrow> bool \<Rightarrow> Command" where
  "new_Command act gate is_async allow =
     \<lparr> action = act, executabilityGate = gate, allowConcurrentExecution = allow,
       cmd_isAsync = is_async, isExecuting = False, cmd_canExecute = gate_now gate,
       phase = Created, pending = 0, calls = [], failures = [],
       isExecuting_emitted = [], canExecute_emitted = [] \<rparr>"

text \<open>Modelled from the spec: \<open>canExecute\<close> is recomputed synchronously whenever the gate or
  the executing flag changes; observers receive the new value while the command is
  subscribed.
\<close>

definition recompute :: "Command \<Rightarrow> Command" where
  "recompute c =
     (let v = (gate_now (executabilityGate c)
                \<and> (allowConcurrentExecution c \<or> \<not> isExecuting c));
          c1 = c\<lparr>cmd_canExecute := v\<rparr>
      in if phase c1 = Subscribed
         then c1\<lparr>canExecute_emitted := canExecute_emitted c1 @ [v]\<rparr>
         else c1)"

text \<open>Modelled from the spec: a change of the executing flag is pushed to its observers and
  propagates to \<open>canExecute\<close> at once.
\<close>

definition set_isExecuting :: "bool \<Rightarrow> Command \<Rightarrow> Command" where
  "set_isExecuting b c =
     (if isExecuting c = b then c
      else let c1 = c\<lparr>isExecuting := b\<rparr>;
               c2 = (if phase c1 = Subscribed
                     then c1\<lparr>isExecuting_emitted := isExecuting_emitted c1 @ [b]\<rparr>
                     else c1)
           in recompute c2)"

text \<open>Modelled from the spec: \<open>subscribe()\<close> activates the composition of the gate and the
  executing flag once; each new observer receives the current values first. A second call
  and a call after \<open>unsubscribe()\<close> change nothing.
\<close>

definition cmd_subscribe :: "Command \<Rightarrow> Command" where
  "cmd_subscribe c =
     (if phase c = Created
      then let g = gate_now (executabilityGate c);
               v = (g \<and> (allowConcurrentExecution c \<or> \<not> isExecuting c))
           in c\<lparr>phase := Subscribed, cmd_canExecute := v,
                isExecuting_emitted := isExecuting_emitted c @ [isExecuting c],
                canExecute_emitted := canExecute_emitted c @ [v]\<rparr>
      else c)"

text \<open>Modelled from the spec: \<open>execute(...args)\<close>. Before \<open>subscribe\<close> and after
  \<open>unsubscribe\<close> it is a no-op. A synchronous command invokes the action at once and
  does not touch the executing flag. An asynchronous one ignores the call while executing
  unless concurrency is allowed; otherwise it sets the flag, then invokes the action.
\<close>

definition cmd_execute :: "Command \<Rightarrow> jsval list \<Rightarrow> Command" where
  "cmd_execute c args =
     (if phase c \<noteq> Subscribed then c
      else if \<not> cmd_isAsync c
      then c\<lparr>calls := calls c @ [(args, action c JUndefined args)]\<rparr>
      else if isExecuting c \<and> \<not> allowConcurrentExecution c then c
      else let c1 = set_isExecuting True c
           in c1\<lparr>pending := pending c1 + 1,
                 calls := calls c1 @ [(args, action c1 JUndefined args)]\<rparr>)"

text \<open>Modelled from the spec: the settlement of one in-flight invocation, with success or
  failure. The flag is cleared when the last pending invocation settles; a failure is
  handed to the caller. A settlement with nothing in flight cannot happen and changes
  nothing.
\<close>

definition cmd_settle :: "Command \<Rightarrow> outcome \<Rightarrow> Command" where
  "cmd_settle c r =
     (if pending c = 0 then c
      else let c1 = c\<lparr>pending := pending c - 1,
                      failures := (case r of Resolved \<Rightarrow> failures c
                                   | Rejected e \<Rightarrow> failures c @ [e])\<rparr>
           in if pending c1 = 0 then set_isExecuting False c1 else c1)"

text \<open>Modelled from the spec: the external gate stream pushes a new value. A fixed or omitted
  gate has no stream. The gate's current value is read when \<open>canExecute\<close> is derived, so
  a changed value is recomputed at once; it reaches the observers while the command is
  subscribed.
\<close>

definition cmd_gateUpdate :: "Command \<Rightarrow> bool \<Rightarrow> Command" where
  "cmd_gateUpdate c b =
     (case executabilityGate c of
        Stream old \<Rightarrow>
          if old = b then c
          else recompute (c\<lparr>executabilityGate := Stream b\<rparr>)
      | _ \<Rightarrow> c)"

text \<open>Modelled from the spec: \<open>unsubscribe()\<close> releases the subscriptions; nothing is emitted
  afterwards and \<open>execute\<close> becomes a no-op. It may be called at any time, any number of
  times. An invocation still in flight settles as before, unobserved, so that the executing
  flag is not left set.
\<close>

definition cmd_unsubscribe :: "Command \<Rightarrow> Command" where
  "cmd_unsubscribe c = c\<lparr>phase := Unsubscribed\<rparr>"

datatype cmd_event =
    Subscribe
  | Execute "jsval list"
  | Settle outcome
  | GateUpdate bool
  | Unsubscribe

fun cmd_step :: "Command \<Rightarrow> cmd_event \<Rightarrow> Command" where
  "cmd_step c Subscribe = cmd_subscribe c"
| "cmd_step c (Execute args) = cmd_execute c args"
| "cmd_step c (Settle r) = cmd_settle c r"
| "cmd_step c (GateUpdate b) = cmd_gateUpdate c b"
| "cmd_step c Unsubscribe = cmd_unsubscribe c"

definition cmd_run :: "Command \<Rightarrow> cmd_event list \<Rightarrow> Command" where
  "cmd_run c evs = foldl cmd_step c evs"

section \<open>The directive\<close>

text \<open>Modelled from the spec: the interface \<^verbatim>\<open>CommandCreator\<close> (imported from
  \<^verbatim>\<open>./command.model\<close>) is not among the sources. Its fields are those the directive
  reads: \<open>host\<close>, \<open>execute\<close>, \<open>canExecute\<close> (a function, or the gate itself),
  \<open>params\<close> and the optional boolean \<open>isAsync\<close> (\<open>None\<close> when undefined).
\<close>

datatype can_execute = CanFunction "executability js_function" | CanValue executability

record CommandCreator =
  host :: jsval
  execute :: "jsval js_function"
  canExecute :: can_execute
  params :: jsval
  isAsync :: "bool option"

text \<open>
  The input \<^verbatim>\<open>commandOrCreator: ICommand | CommandCreator | undefined\<close>. Anything that is
  neither a Command instance nor a well-formed creator is a plain value.
\<close>

datatype command_input =
    Value jsval
  | CommandInstance Command
  | CreatorObject CommandCreator

fun input_truthy :: "command_input \<Rightarrow> bool" where
  "input_truthy (Value v) = js_truthy v"
| "input_truthy (CommandInstance c) = True"
| "input_truthy (CreatorObject cr) = True"

text \<open>Modelled from the spec: the type guards \<^verbatim>\<open>isCommand\<close> and \<^verbatim>\<open>isCommandCreator\<close>
  (imported from \<^verbatim>\<open>./command.util\<close>) are not among the sources. A guard that holds
  narrows its argument, so each returns the narrowed value: \<open>isCommand\<close> accepts the
  Command instances, \<open>isCommandCreator\<close> the well-formed creators.
\<close>

fun isCommand :: "command_input \<Rightarrow> Command option" where
  "isCommand (CommandInstance c) = Some c"
| "isCommand _ = None"

fun isCommandCreator :: "command_input \<Rightarrow> CommandCreator option" where
  "isCommandCreator (CreatorObject cr) = Some cr"
| "isCommandCreator _ = None"

text \<open>
  The state of a \<^verbatim>\<open>CommandDirective\<close>: its inputs, \<^verbatim>\<open>_disabled\<close>, the current value
  of \<^verbatim>\<open>_attrDisabled$\<close>, \<^verbatim>\<open>_command\<close> (\<open>None\<close> while undefined), whether the
  subscriptions made by \<^verbatim>\<open>ngOnInit\<close> are alive (they end when \<^verbatim>\<open>_destroy$\<close> fires),
  whether the host element carries the executing CSS class, and what was written with
  \<^verbatim>\<open>console.error\<close>. Of the options only \<^verbatim>\<open>handleDisabled\<close> affects the state.
\<close>

record CommandDirective =
  commandOrCreator :: command_input
  commandParams :: jsval
  handleDisabled :: bool
  disabled :: bool
  attrDisabled :: "bool option"
  command :: "Command option"
  wired :: bool
  executingCssClass :: bool
  console :: "bool option list"

definition new_CommandDirective :: "command_input \<Rightarrow> jsval \<Rightarrow> bool \<Rightarrow> CommandDirective" where
  "new_CommandDirective inp ps handle =
     \<lparr> commandOrCreator = inp, commandParams = ps, handleDisabled = handle,
       disabled = False, attrDisabled = None, command = None, wired = False,
       executingCssClass = False, console = [] \<rparr>"

text \<open>
  \<^verbatim>\<open>set attrDisabled(value)\<close>: logs and pushes a changed value. The options pipeline of
  \<^verbatim>\<open>ngOnInit\<close>, while alive and with \<^verbatim>\<open>handleDisabled\<close>, reacts to a pushed value that
  is defined and differs from \<^verbatim>\<open>disabled\<close> by writing \<^verbatim>\<open>disabled\<close> back.
\<close>

definition set_attrDisabled :: "bool option \<Rightarrow> CommandDirective \<Rightarrow> CommandDirective" where
  "set_attrDisabled v d =
     (if v = attrDisabled d then d
      else let d1 = d\<lparr>console := console d @ [v], attrDisabled := v\<rparr>
           in if wired d1 \<and> handleDisabled d1 \<and> v \<noteq> None \<and> v \<noteq> Some (disabled d1)
              then d1\<lparr>console := console d1 @ [Some (disabled d1)],
                      attrDisabled := Some (disabled d1)\<rparr>
              else d1)"

text \<open>\<^verbatim>\<open>set disabled(value)\<close>\<close>

definition set_disabled :: "bool \<Rightarrow> CommandDirective \<Rightarrow> CommandDirective" where
  "set_disabled v d =
     (if v = disabled d then d
      else set_attrDisabled (Some v) (d\<lparr>disabled := v\<rparr>))"

text \<open>
  The two subscriptions to the command's signals, each ended by \<^verbatim>\<open>takeUntil(_destroy$)\<close>:
  \<^verbatim>\<open>tap(canExecute => this.disabled = !canExecute)\<close> and the toggle of the executing class.
\<close>

definition on_canExecute :: "CommandDirective \<Rightarrow> bool \<Rightarrow> CommandDirective" where
  "on_canExecute d b = (if wired d then set_disabled (\<not> b) d else d)"

definition on_isExecuting :: "CommandDirective \<Rightarrow> bool \<Rightarrow> CommandDirective" where
  "on_isExecuting d x = (if wired d then d\<lparr>executingCssClass := x\<rparr> else d)"

definition observe_canExecute :: "CommandDirective \<Rightarrow> bool list \<Rightarrow> CommandDirective" where
  "observe_canExecute d bs = foldl on_canExecute d bs"

definition observe_isExecuting :: "CommandDirective \<Rightarrow> bool list \<Rightarrow> CommandDirective" where
  "observe_isExecuting d bs = foldl on_isExecuting d bs"

text \<open>Modelled from the spec: the signals \<^verbatim>\<open>canExecute$\<close> and \<^verbatim>\<open>isExecuting$\<close> of the absent
  class replay their latest value to a new observer, until the command is unsubscribed.
\<close>

definition replay_canExecute :: "Command \<Rightarrow> bool list" where
  "replay_canExecute c = (if phase c = Subscribed then [cmd_canExecute c] else [])"

definition replay_isExecuting :: "Command \<Rightarrow> bool list" where
  "replay_isExecuting c = (if phase c = Subscribed then [isExecuting c] else [])"

text \<open>What the directive's observers receive when the command goes from \<open>c\<close> to \<open>c'\<close>.\<close>

definition deliver :: "Command \<Rightarrow> Command \<Rightarrow> CommandDirective \<Rightarrow> CommandDirective" where
  "deliver c c' d =
     observe_isExecuting
       (observe_canExecute d (drop (length (canExecute_emitted c)) (canExecute_emitted c')))
       (drop (length (isExecuting_emitted c)) (isExecuting_emitted c'))"

text \<open>
  Lines 151 to 187 of \<^verbatim>\<open>ngOnInit\<close>: subscribe the command, then the options pipeline
  (which first sees the current \<^verbatim>\<open>_attrDisabled$\<close> value), then the two signals.
\<close>

definition ngOnInit_subscribe :: "Command \<Rightarrow> CommandDirective \<Rightarrow> CommandDirective" where
  "ngOnInit_subscribe c d =
     (let c' = cmd_subscribe c;
          d1 = d\<lparr>command := Some c', wired := True\<rparr>;
          d2 = (if handleDisabled d1 \<and> attrDisabled d1 \<noteq> None
                   \<and> attrDisabled d1 \<noteq> Some (disabled d1)
                then set_attrDisabled (Some (disabled d1)) d1 else d1);
          d3 = observe_canExecute d2 (replay_canExecute c')
      in observe_isExecuting d3 (replay_isExecuting c'))"

text \<open>
  \<^verbatim>\<open>ngOnInit\<close>. The result is the state left behind and the error thrown, if any. The
  three-argument call \<^verbatim>\<open>new Command(execFn, canExec, isAsync)\<close> leaves
  \<open>allowConcurrentExecution\<close> out: an omitted boolean is false.
\<close>

definition ngOnInit :: "CommandDirective \<Rightarrow> CommandDirective \<times> js_error option" where
  "ngOnInit d0 =
     (let d = set_disabled True d0
      in if \<not> input_truthy (commandOrCreator d)
         then (d, Some (JsError ''ssvCommand: [ssvCommand] should be defined!''))
         else case isCommand (commandOrCreator d) of
           Some c \<Rightarrow> (ngOnInit_subscribe c d, None)
         | None \<Rightarrow>
            (case isCommandCreator (commandOrCreator d) of
               Some cr \<Rightarrow>
                 (let is_async = (isAsync cr = Some True \<or> isAsync cr = None);
                      execFn = js_bind (execute cr) (host cr) [];
                      d1 = d\<lparr>commandParams := js_or (commandParams d) (params cr)\<rparr>;
                      canExec = (case canExecute cr of
                                   CanFunction f \<Rightarrow>
                                     js_bind f (host cr) [commandParams d1] JUndefined []
                                 | CanValue e \<Rightarrow> e)
                  in (ngOnInit_subscribe (new_Command execFn canExec is_async False) d1, None))
             | None \<Rightarrow>
                 (d, Some (JsError ''ssvCommand: [ssvCommand] is not defined properly!''))))"

text \<open>
  \<^verbatim>\<open>onClick\<close>: an array is spread into \<^verbatim>\<open>execute\<close>, anything else is its only
  argument. With \<^verbatim>\<open>_command\<close> undefined the call is a TypeError.
\<close>

fun isArray :: "jsval \<Rightarrow> bool" where
  "isArray (JArr xs) = True"
| "isArray _ = False"

fun spread :: "jsval \<Rightarrow> jsval list" where
  "spread (JArr xs) = xs"
| "spread _ = []"

definition onClick :: "CommandDirective \<Rightarrow> CommandDirective \<times> js_error option" where
  "onClick d =
     (case command d of
        None \<Rightarrow> (d, Some JsTypeError)
      | Some c \<Rightarrow>
          let c' = (if isArray (commandParams d)
                    then cmd_execute c (spread (commandParams d))
                    else cmd_execute c [commandParams d])
          in (deliver c c' (d\<lparr>command := Some c'\<rparr>), None))"

text \<open>\<^verbatim>\<open>ngOnDestroy\<close>: end the subscriptions, then unsubscribe the command if there is one.\<close>

definition ngOnDestroy :: "CommandDirective \<Rightarrow> CommandDirective \<times> js_error option" where
  "ngOnDestroy d =
     (let d1 = d\<lparr>wired := False\<rparr>
      in case command d1 of
           None \<Rightarrow> (d1, None)
         | Some c \<Rightarrow> (d1\<lparr>command := Some (cmd_unsubscribe c)\<rparr>, None))"

text \<open>
  A transition of the command that the directive did not start (the gate stream pushes a
  value, an invocation settles): the command changes and the observers are notified.
\<close>

definition command_event :: "CommandDirective \<Rightarrow> cmd_event \<Rightarrow> CommandDirective" where
  "command_event d ev =
     (case command d of
        None \<Rightarrow> d
      | Some c \<Rightarrow> let c' = cmd_step c ev in deliver c c' (d\<lparr>command := Some c'\<rparr>))"

text \<open>
  What can happen to a directive, in any order: a click, the teardown, a transition of the
  command, and a write from the template to one of the inputs \<^verbatim>\<open>disabled\<close> (lines 88
  to 96) and \<^verbatim>\<open>commandParams\<close> (line 86).
\<close>

datatype dir_event =
    Click
  | Destroy
  | CommandEvent cmd_event
  | SetDisabled bool
  | SetParams jsval

fun dir_step :: "CommandDirective \<Rightarrow> dir_event \<Rightarrow> CommandDirective" where
  "dir_step d Click = fst (onClick d)"
| "dir_step d Destroy = fst (ngOnDestroy d)"
| "dir_step d (CommandEvent ev) = command_event d ev"
| "dir_step d (SetDisabled v) = set_disabled v d"
| "dir_step d (SetParams v) = d\<lparr>commandParams := v\<rparr>"

definition dir_run :: "CommandDirective \<Rightarrow> dir_event list \<Rightarrow> CommandDirective" where
  "dir_run d evs = foldl dir_step d evs"

fun is_input_write :: "dir_event \<Rightarrow> bool" where
  "is_input_write (SetDisabled v) = True"
| "is_input_write _ = False"

section \<open>Invariants and example values\<close>

text \<open>The relations between the fields of a command that every transition keeps.\<close>

definition cmd_inv :: "Command \<Rightarrow> bool" where
  "cmd_inv c \<longleftrightarrow>
     cmd_canExecute c = (gate_now (executabilityGate c)
                           \<and> (allowConcurrentExecution c \<or> \<not> isExecuting c))
     \<and> (isExecuting c \<longleftrightarrow> 0 < pending c)
     \<and> (\<not> cmd_isAsync c \<longrightarrow> pending c = 0)
     \<and> (\<not> allowConcurrentExecution c \<longrightarrow> pending c \<le> 1)"

text \<open>While subscribed, the last value each signal pushed is the current one.\<close>

definition signal_inv :: "Command \<Rightarrow> bool" where
  "signal_inv c \<longleftrightarrow>
     (phase c = Subscribed \<longrightarrow>
           canExecute_emitted c \<noteq> [] \<and> last (canExecute_emitted c) = cmd_canExecute c
           \<and> isExecuting_emitted c \<noteq> [] \<and> last (isExecuting_emitted c) = isExecuting c)"

text \<open>A synchronous command that has never been executing.\<close>

definition quiet :: "Command \<Rightarrow> bool" where
  "quiet c \<longleftrightarrow> \<not> cmd_isAsync c \<and> \<not> isExecuting c \<and> pending c = 0
     \<and> set (isExecuting_emitted c) \<subseteq> {False}"

text \<open>An asynchronous command without concurrency, with an invocation in flight.\<close>

definition busy :: "Command \<Rightarrow> bool" where
  "busy c \<longleftrightarrow> cmd_isAsync c \<and> \<not> allowConcurrentExecution c \<and> isExecuting c"

text \<open>
  The \<open>canExecute\<close> values received so far by an observer that subscribed when the command
  was in state \<open>c0\<close>, the command being in state \<open>c\<close> now: the replayed value, then
  what was pushed since.
\<close>

definition received :: "Command \<Rightarrow> Command \<Rightarrow> bool list" where
  "received c0 c =
     replay_canExecute c0 @ drop (length (canExecute_emitted c0)) (canExecute_emitted c)"

text \<open>
  The directive follows its command since it subscribed at \<open>c0\<close>: \<open>disabled\<close> is the
  negation of the last value received, true if there was none, and the subscription is
  alive unless the command has been unsubscribed.
\<close>

definition follows :: "Command \<Rightarrow> CommandDirective \<Rightarrow> bool" where
  "follows c0 d \<longleftrightarrow>
     (case command d of
        None \<Rightarrow> False
      | Some c \<Rightarrow>
          take (length (canExecute_emitted c0)) (canExecute_emitted c) = canExecute_emitted c0
          \<and> disabled d = (if received c0 c = [] then True else \<not> last (received c0 c))
          \<and> (wired d \<or> phase c = Unsubscribed))"

text \<open>
  The host binding \<^verbatim>\<open>attr.disabled\<close> agrees with \<^verbatim>\<open>disabled\<close>: it is undefined
  while \<^verbatim>\<open>disabled\<close> has never left false, and equal to it from then on.
\<close>

definition attr_ok :: "CommandDirective \<Rightarrow> bool" where
  "attr_ok d \<longleftrightarrow>
     attrDisabled d = Some (disabled d) \<or> (attrDisabled d = None \<and> \<not> disabled d)"

fun is_settle :: "cmd_event \<Rightarrow> bool" where
  "is_settle (Settle r) = True"
| "is_settle _ = False"

text \<open>Values for the concrete instances: an action that returns what it was called with.\<close>

definition echo :: "jsval js_function" where
  "echo this args = JArr (this # args)"

definition example_command :: Command where
  "example_command = new_Command echo (Stream True) True False"

definition example_gate :: "executability js_function" where
  "example_gate this args = Fixed (this = JObj 1 \<and> args = [JArr [JNum 7]])"

definition example_creator :: CommandCreator where
  "example_creator =
     \<lparr> host = JObj 1, execute = echo, canExecute = CanFunction example_gate,
       params = JArr [JNum 7], isAsync = None \<rparr>"

definition example_directive :: CommandDirective where
  "example_directive = new_CommandDirective (CreatorObject example_creator) JUndefined True"

definition example_clickable :: "jsval \<Rightarrow> CommandDirective" where
  "example_clickable ps =
     (new_CommandDirective (CommandInstance example_command) ps True)
       \<lparr>command := Some (cmd_subscribe example_command)\<rparr>"

section \<open>Properties of the command\<close>

lemma cmd_inv_new: "cmd_inv (new_Command a g s al)"
  by (simp add: cmd_inv_def new_Command_def)

lemma signal_inv_new: "signal_inv (new_Command a g s al)"
  by (simp add: signal_inv_def new_Command_def)

lemma cmd_inv_step: "cmd_inv c \<Longrightarrow> cmd_inv (cmd_step c ev)"
proof (cases ev)
  case Subscribe
  assume "cmd_inv c" then show ?thesis unfolding Subscribe
    by (simp add: cmd_inv_def cmd_subscribe_def Let_def)
next
  case (Execute args)
  assume "cmd_inv c" then show ?thesis unfolding Execute
    by (simp add: cmd_inv_def cmd_execute_def set_isExecuting_def recompute_def Let_def)
next
  case (Settle r)
  assume "cmd_inv c" then show ?thesis unfolding Settle
    by (auto simp add: cmd_inv_def cmd_settle_def set_isExecuting_def recompute_def Let_def)
next
  case (GateUpdate b)
  assume "cmd_inv c" then show ?thesis unfolding GateUpdate
    by (simp add: cmd_inv_def cmd_gateUpdate_def recompute_def Let_def split: executability.splits)
next
  case Unsubscribe
  assume "cmd_inv c" then show ?thesis unfolding Unsubscribe
    by (simp add: cmd_inv_def cmd_unsubscribe_def)
qed

lemma signal_inv_step: "signal_inv c \<Longrightarrow> signal_inv (cmd_step c ev)"
proof (cases ev)
  case Subscribe
  assume "signal_inv c" then show ?thesis unfolding Subscribe
    by (simp add: signal_inv_def cmd_subscribe_def Let_def)
next
  case (Execute args)
  assume "signal_inv c" then show ?thesis unfolding Execute
    by (simp add: signal_inv_def cmd_execute_def set_isExecuting_def recompute_def Let_def)
next
  case (Settle r)
  assume "signal_inv c" then show ?thesis unfolding Settle
    by (simp add: signal_inv_def cmd_settle_def set_isExecuting_def recompute_def Let_def)
next
  case (GateUpdate b)
  assume "signal_inv c" then show ?thesis unfolding GateUpdate
    by (simp add: signal_inv_def cmd_gateUpdate_def recompute_def Let_def split: executability.splits)
next
  case Unsubscribe
  assume "signal_inv c" then show ?thesis unfolding Unsubscribe
    by (simp add: signal_inv_def cmd_unsubscribe_def)
qed

lemma cmd_inv_run: "cmd_inv c \<Longrightarrow> cmd_inv (cmd_run c evs)"
  unfolding cmd_run_def by (induction evs arbitrary: c) (simp_all add: cmd_inv_step)

lemma signal_inv_run: "signal_inv c \<Longrightarrow> signal_inv (cmd_run c evs)"
  unfolding cmd_run_def by (induction evs arbitrary: c) (simp_all add: signal_inv_step)

lemma static_step:
  "action (cmd_step c ev) = action c \<and> cmd_isAsync (cmd_step c ev) = cmd_isAsync c
     \<and> allowConcurrentExecution (cmd_step c ev) = allowConcurrentExecution c"
  by (cases ev)
     (simp_all add: cmd_subscribe_def cmd_execute_def cmd_settle_def cmd_gateUpdate_def
        cmd_unsubscribe_def set_isExecuting_def recompute_def Let_def
        split: executability.splits)

lemma static_run:
  "action (cmd_run c evs) = action c \<and> cmd_isAsync (cmd_run c evs) = cmd_isAsync c
     \<and> allowConcurrentExecution (cmd_run c evs) = allowConcurrentExecution c"
  unfolding cmd_run_def by (induction evs arbitrary: c) (simp_all add: static_step)

lemma quiet_step: "quiet c \<Longrightarrow> quiet (cmd_step c ev)"
  by (cases ev)
     (simp_all add: quiet_def cmd_subscribe_def cmd_execute_def cmd_settle_def cmd_gateUpdate_def
        cmd_unsubscribe_def recompute_def Let_def split: executability.splits)

lemma quiet_run: "quiet c \<Longrightarrow> quiet (cmd_run c evs)"
  unfolding cmd_run_def by (induction evs arbitrary: c) (simp_all add: quiet_step)

lemma busy_step:
  "busy c \<Longrightarrow> \<not> is_settle ev \<Longrightarrow> busy (cmd_step c ev) \<and> calls (cmd_step c ev) = calls c"
  by (cases ev)
     (simp_all add: busy_def cmd_subscribe_def cmd_execute_def cmd_gateUpdate_def
        cmd_unsubscribe_def recompute_def Let_def split: executability.splits)

lemma busy_run:
  "busy c \<Longrightarrow> \<forall>ev\<in>set evs. \<not> is_settle ev
     \<Longrightarrow> busy (cmd_run c evs) \<and> calls (cmd_run c evs) = calls c"
  unfolding cmd_run_def
proof (induction evs arbitrary: c)
  case Nil
  then show ?case by simp
next
  case (Cons e es)
  from Cons.prems have s: "busy (cmd_step c e)" "calls (cmd_step c e) = calls c"
    using busy_step[of c e] by simp_all
  from Cons.prems have "\<forall>ev\<in>set es. \<not> is_settle ev" by simp
  from Cons.IH[OF s(1) this] s(2) show ?case by simp
qed

lemma frozen_step:
  "phase c = Unsubscribed \<Longrightarrow>
     phase (cmd_step c ev) = Unsubscribed \<and> calls (cmd_step c ev) = calls c
     \<and> canExecute_emitted (cmd_step c ev) = canExecute_emitted c
     \<and> isExecuting_emitted (cmd_step c ev) = isExecuting_emitted c"
  by (cases ev)
     (simp_all add: cmd_subscribe_def cmd_execute_def cmd_settle_def cmd_gateUpdate_def
        cmd_unsubscribe_def set_isExecuting_def recompute_def Let_def
        split: executability.splits)

lemma frozen_run:
  "phase c = Unsubscribed \<Longrightarrow>
     phase (cmd_run c evs) = Unsubscribed \<and> calls (cmd_run c evs) = calls c
     \<and> canExecute_emitted (cmd_run c evs) = canExecute_emitted c
     \<and> isExecuting_emitted (cmd_run c evs) = isExecuting_emitted c"
  unfolding cmd_run_def
proof (induction evs arbitrary: c)
  case Nil
  then show ?case by simp
next
  case (Cons e es)
  from frozen_step[OF Cons.prems, of e] Cons.IH[of "cmd_step c e"]
  show ?case by simp
qed

lemma settle_failures:
  "(cmd_settle c (Rejected e))\<lparr>failures := failures c\<rparr> = cmd_settle c Resolved"
  by (simp add: cmd_settle_def set_isExecuting_def recompute_def Let_def)

lemmas cmd_eval = cmd_run_def cmd_subscribe_def cmd_execute_def cmd_settle_def
  cmd_gateUpdate_def cmd_unsubscribe_def set_isExecuting_def recompute_def new_Command_def
  example_command_def echo_def Let_def

text \<open>
  The scenario of the specification: gate true, asynchronous, no concurrent execution;
  subscribe, execute, execute again while pending, then the action resolves. The action
  runs once, \<open>isExecuting\<close> shows false, true, false and \<open>canExecute\<close> true, false, true.
\<close>

lemma spec_scenario:
  "calls (cmd_run example_command [Subscribe, Execute [], Execute [], Settle Resolved])
     = [([], JArr [JUndefined])]"
  "isExecuting_emitted (cmd_run example_command [Subscribe, Execute [], Execute [], Settle Resolved])
     = [False, True, False]"
  "canExecute_emitted (cmd_run example_command [Subscribe, Execute [], Execute [], Settle Resolved])
     = [True, False, True]"
  by (simp_all add: cmd_eval)

text \<open>
  Claim C1. Whatever happens to a command after its construction (subscription, calls
  of \<open>execute\<close>, settlements, gate updates, unsubscription, in any order), its
  \<open>canExecute\<close> value equals the current value of the gate and
  (\<open>allowConcurrentExecution\<close> or not \<open>isExecuting\<close>). While the command is subscribed,
  the last value pushed on the \<open>canExecute\<close> signal is this one.
\<close>

theorem canExecute_equation:
  "let c = cmd_run (new_Command act gate is_async allow) evs in
     cmd_canExecute c = (gate_now (executabilityGate c)
                           \<and> (allowConcurrentExecution c \<or> \<not> isExecuting c)) \<and>
     (phase c = Subscribed \<longrightarrow>
        canExecute_emitted c \<noteq> [] \<and> last (canExecute_emitted c) = cmd_canExecute c)"
  using cmd_inv_run[OF cmd_inv_new, of act gate is_async allow evs]
        signal_inv_run[OF signal_inv_new, of act gate is_async allow evs]
  by (simp add: cmd_inv_def signal_inv_def Let_def)

theorem canExecute_equation_witness:
  "phase (cmd_run example_command [Subscribe, Execute [], GateUpdate False, Settle Resolved])
     = Subscribed \<and>
   \<not> cmd_canExecute
       (cmd_run example_command [Subscribe, Execute [], GateUpdate False, Settle Resolved]) \<and>
   last (canExecute_emitted
       (cmd_run example_command [Subscribe, Execute [], GateUpdate False, Settle Resolved]))
     = cmd_canExecute
       (cmd_run example_command [Subscribe, Execute [], GateUpdate False, Settle Resolved])"
proof -
  let ?evs = "[Subscribe, Execute [], GateUpdate False, Settle Resolved]"
  have ph: "phase (cmd_run example_command ?evs) = Subscribed"
    and g: "\<not> gate_now (executabilityGate (cmd_run example_command ?evs))"
    by (simp_all add: cmd_eval)
  from canExecute_equation[of echo "Stream True" True False ?evs] ph g
  show ?thesis by (simp add: example_command_def Let_def)
qed

text \<open>
  Claim C2. On an asynchronous command without concurrent execution, \<open>execute\<close> while
  \<open>isExecuting\<close> is true returns the state unchanged: the action is not invoked, nothing
  is emitted, no field moves (and the operation has no failing branch). Through any further
  events other than a settlement the flag stays true and the action is still not invoked.
\<close>

theorem execute_while_executing_ignored:
  assumes "cmd_isAsync c" and "\<not> allowConcurrentExecution c" and "isExecuting c"
  shows "cmd_execute c args = c \<and>
         (\<forall>evs. (\<forall>ev\<in>set evs. \<not> is_settle ev) \<longrightarrow>
            isExecuting (cmd_run c evs) \<and> calls (cmd_run c evs) = calls c)"
proof -
  have b: "busy c" using assms by (simp add: busy_def)
  have "cmd_execute c args = c" using assms by (simp add: cmd_execute_def)
  moreover have "\<forall>evs. (\<forall>ev\<in>set evs. \<not> is_settle ev) \<longrightarrow>
            isExecuting (cmd_run c evs) \<and> calls (cmd_run c evs) = calls c"
    using busy_run[OF b] by (simp add: busy_def)
  ultimately show ?thesis by simp
qed

theorem execute_while_executing_ignored_witness:
  "isExecuting (cmd_run example_command [Subscribe, Execute [JNum 1]]) \<and>
   cmd_execute (cmd_run example_command [Subscribe, Execute [JNum 1]]) [JNum 2]
     = cmd_run example_command [Subscribe, Execute [JNum 1]] \<and>
   calls (cmd_run (cmd_run example_command [Subscribe, Execute [JNum 1]])
            [Execute [JNum 2], GateUpdate False, Execute []])
     = [([JNum 1], JArr [JUndefined, JNum 1])]"
proof -
  let ?c = "cmd_run example_command [Subscribe, Execute [JNum 1]]"
  have a: "cmd_isAsync ?c" and b: "\<not> allowConcurrentExecution ?c" and e: "isExecuting ?c"
    and k: "calls ?c = [([JNum 1], JArr [JUndefined, JNum 1])]"
    by (simp_all add: cmd_eval)
  have n: "\<forall>ev\<in>set [Execute [JNum 2], GateUpdate False, Execute []]. \<not> is_settle ev"
    by simp
  from execute_while_executing_ignored[OF a b e, of "[JNum 2]"] n e k
  show ?thesis by metis
qed

text \<open>
  Claim C3. For a command constructed with \<open>isAsync = false\<close>, after any sequence of
  events \<open>isExecuting\<close> is false and only false was ever pushed on its signal. On the
  subscribed command \<open>execute\<close> invokes the action at once, with the arguments given, and
  changes nothing but the record of invocations.
\<close>

theorem sync_never_executing:
  "let c = cmd_run (new_Command act gate False allow) evs in
     \<not> isExecuting c \<and> set (isExecuting_emitted c) \<subseteq> {False} \<and>
     (phase c = Subscribed \<longrightarrow>
        cmd_execute c args = c\<lparr>calls := calls c @ [(args, act JUndefined args)]\<rparr>)"
proof -
  have q: "quiet (new_Command act gate False allow)"
    by (simp add: quiet_def new_Command_def)
  have a: "action (cmd_run (new_Command act gate False allow) evs) = act"
    using static_run[of "new_Command act gate False allow" evs] by (simp add: new_Command_def)
  from quiet_run[OF q, of evs] a show ?thesis
    by (simp add: quiet_def Let_def cmd_execute_def)
qed

theorem sync_never_executing_witness:
  "phase (cmd_run (new_Command echo (Fixed True) False False) [Subscribe, Execute [JNum 1]])
     = Subscribed \<and>
   \<not> isExecuting
       (cmd_run (new_Command echo (Fixed True) False False) [Subscribe, Execute [JNum 1]]) \<and>
   calls (cmd_execute
       (cmd_run (new_Command echo (Fixed True) False False) [Subscribe, Execute [JNum 1]])
       [JNum 2])
     = [([JNum 1], JArr [JUndefined, JNum 1]), ([JNum 2], JArr [JUndefined, JNum 2])]"
proof -
  let ?c = "cmd_run (new_Command echo (Fixed True) False False) [Subscribe, Execute [JNum 1]]"
  have ph: "phase ?c = Subscribed"
    and k: "calls ?c = [([JNum 1], JArr [JUndefined, JNum 1])]"
    by (simp_all add: cmd_eval)
  from sync_never_executing[of echo "Fixed True" False "[Subscribe, Execute [JNum 1]]" "[JNum 2]"]
    ph k
  show ?thesis by (simp add: Let_def echo_def)
qed

lemma settle_rejected_state:
  "let c = cmd_run (new_Command act gate True allow) evs;
       c' = cmd_settle c (Rejected e)
   in c'\<lparr>failures := failures c\<rparr> = cmd_settle c Resolved \<and>
      (isExecuting c' \<longleftrightarrow> 0 < pending c') \<and>
      (pending c \<le> 1 \<longrightarrow> \<not> isExecuting c') \<and>
      (\<not> allow \<longrightarrow> \<not> isExecuting c') \<and>
      (phase c' = Subscribed \<and> \<not> isExecuting c' \<longrightarrow>
         isExecuting (cmd_execute c' args) \<and>
         calls (cmd_execute c' args) = calls c' @ [(args, act JUndefined args)])"
proof -
  define c where "c = cmd_run (new_Command act gate True allow) evs"
  define c' where "c' = cmd_settle c (Rejected e)"
  have i: "cmd_inv c" unfolding c_def by (rule cmd_inv_run[OF cmd_inv_new])
  have i': "cmd_inv c'" using cmd_inv_step[OF i, of "Settle (Rejected e)"] by (simp add: c'_def)
  have st: "action c = act" "cmd_isAsync c" "allowConcurrentExecution c = allow"
    using static_run[of "new_Command act gate True allow" evs]
    by (simp_all add: c_def new_Command_def)
  have st': "action c' = act" "cmd_isAsync c'"
    using static_step[of c "Settle (Rejected e)"] st by (simp_all add: c'_def)
  have p: "pending c' = pending c - 1"
    by (simp add: c'_def cmd_settle_def set_isExecuting_def recompute_def Let_def)
  have 1: "c'\<lparr>failures := failures c\<rparr> = cmd_settle c Resolved"
    unfolding c'_def by (rule settle_failures)
  have 2: "isExecuting c' \<longleftrightarrow> 0 < pending c'" using i' by (simp add: cmd_inv_def)
  have 3: "pending c \<le> 1 \<longrightarrow> \<not> isExecuting c'" using 2 p by simp
  have 4: "\<not> allow \<longrightarrow> \<not> isExecuting c'" using i st(3) 3 by (simp add: cmd_inv_def)
  have 5: "phase c' = Subscribed \<and> \<not> isExecuting c' \<longrightarrow>
         isExecuting (cmd_execute c' args) \<and>
         calls (cmd_execute c' args) = calls c' @ [(args, act JUndefined args)]"
    using st' by (simp add: cmd_execute_def set_isExecuting_def recompute_def Let_def)
  from 1 2 3 4 5 show ?thesis unfolding Let_def c_def[symmetric] c'_def[symmetric] by simp
qed

text \<open>
  Claim C4. For a command without concurrent execution (what the three-argument
  construction of the directive gives), \<open>isExecuting\<close> is false after a failure settles,
  in every reachable state. In general, in every reachable state of an asynchronous command,
  a settlement with failure leaves the state a settlement with success leaves, the reported
  failure apart: the flag is cleared exactly as on the success path, that is when the last
  invocation in flight settles. From there the subscribed command is Idle again: the next
  \<open>execute\<close> sets the flag and invokes the action.
\<close>

theorem failure_releases_isExecuting:
  "\<not> isExecuting (cmd_settle (cmd_run (new_Command act gate True False) evs) (Rejected e)) \<and>
   (let c = cmd_run (new_Command act gate True allow) evs;
        c' = cmd_settle c (Rejected e)
    in c'\<lparr>failures := failures c\<rparr> = cmd_settle c Resolved \<and>
       isExecuting c' = isExecuting (cmd_settle c Resolved) \<and>
       (isExecuting c' \<longleftrightarrow> 0 < pending c') \<and>
       (pending c \<le> 1 \<longrightarrow> \<not> isExecuting c') \<and>
       (\<not> allow \<longrightarrow> \<not> isExecuting c') \<and>
       (phase c' = Subscribed \<and> \<not> isExecuting c' \<longrightarrow>
          isExecuting (cmd_execute c' args) \<and>
          calls (cmd_execute c' args) = calls c' @ [(args, act JUndefined args)]))"
proof -
  have a: "\<not> isExecuting (cmd_settle (cmd_run (new_Command act gate True False) evs) (Rejected e))"
    using settle_rejected_state[of act gate False evs e args] unfolding Let_def by blast
  have b: "isExecuting (cmd_settle (cmd_run (new_Command act gate True allow) evs) (Rejected e))
      = isExecuting (cmd_settle (cmd_run (new_Command act gate True allow) evs) Resolved)"
    using arg_cong[OF settle_failures[of "cmd_run (new_Command act gate True allow) evs" e],
            of isExecuting]
    by simp
  from a b settle_rejected_state[of act gate allow evs e args]
  show ?thesis unfolding Let_def by blast
qed

theorem failure_releases_isExecuting_witness:
  "isExecuting (cmd_run example_command [Subscribe, Execute [JNum 1]]) \<and>
   pending (cmd_run example_command [Subscribe, Execute [JNum 1]]) \<le> 1 \<and>
   \<not> isExecuting
       (cmd_settle (cmd_run example_command [Subscribe, Execute [JNum 1]])
          (Rejected (JStr ''boom''))) \<and>
   calls (cmd_execute
       (cmd_settle (cmd_run example_command [Subscribe, Execute [JNum 1]])
          (Rejected (JStr ''boom''))) [JNum 2])
     = [([JNum 1], JArr [JUndefined, JNum 1]), ([JNum 2], JArr [JUndefined, JNum 2])]"
proof -
  let ?c = "cmd_run example_command [Subscribe, Execute [JNum 1]]"
  let ?c' = "cmd_settle ?c (Rejected (JStr ''boom''))"
  have e: "isExecuting ?c" and p: "pending ?c \<le> 1"
    and ph: "phase ?c' = Subscribed"
    and k: "calls ?c' = [([JNum 1], JArr [JUndefined, JNum 1])]"
    by (simp_all add: cmd_eval)
  from failure_releases_isExecuting[of echo "Stream True"
         "[Subscribe, Execute [JNum 1]]" "JStr ''boom''" False "[JNum 2]"] e p ph k
  show ?thesis by (auto simp add: example_command_def Let_def echo_def)
qed

section \<open>Properties of the directive\<close>

lemma set_attrDisabled_keeps:
  "commandOrCreator (set_attrDisabled v d) = commandOrCreator d"
  "commandParams (set_attrDisabled v d) = commandParams d"
  "handleDisabled (set_attrDisabled v d) = handleDisabled d"
  "disabled (set_attrDisabled v d) = disabled d"
  "command (set_attrDisabled v d) = command d"
  "wired (set_attrDisabled v d) = wired d"
  "executingCssClass (set_attrDisabled v d) = executingCssClass d"
  by (simp_all add: set_attrDisabled_def Let_def)

lemma set_disabled_keeps:
  "commandOrCreator (set_disabled v d) = commandOrCreator d"
  "commandParams (set_disabled v d) = commandParams d"
  "handleDisabled (set_disabled v d) = handleDisabled d"
  "command (set_disabled v d) = command d"
  "wired (set_disabled v d) = wired d"
  "executingCssClass (set_disabled v d) = executingCssClass d"
  by (simp_all add: set_disabled_def set_attrDisabled_keeps)

lemma disabled_set_disabled: "disabled (set_disabled v d) = v"
  by (simp add: set_disabled_def set_attrDisabled_keeps)

lemma on_canExecute_keeps:
  "commandOrCreator (on_canExecute d b) = commandOrCreator d"
  "commandParams (on_canExecute d b) = commandParams d"
  "handleDisabled (on_canExecute d b) = handleDisabled d"
  "command (on_canExecute d b) = command d"
  "wired (on_canExecute d b) = wired d"
  "executingCssClass (on_canExecute d b) = executingCssClass d"
  by (simp_all add: on_canExecute_def set_disabled_keeps)

lemma observe_canExecute_keeps:
  "commandOrCreator (observe_canExecute d bs) = commandOrCreator d
   \<and> commandParams (observe_canExecute d bs) = commandParams d
   \<and> handleDisabled (observe_canExecute d bs) = handleDisabled d
   \<and> command (observe_canExecute d bs) = command d
   \<and> wired (observe_canExecute d bs) = wired d
   \<and> executingCssClass (observe_canExecute d bs) = executingCssClass d"
  unfolding observe_canExecute_def
  by (induction bs arbitrary: d) (simp_all add: on_canExecute_keeps)

lemma disabled_observe_canExecute:
  "disabled (observe_canExecute d bs) = (if wired d \<and> bs \<noteq> [] then \<not> last bs else disabled d)"
  unfolding observe_canExecute_def
proof (induction bs arbitrary: d)
  case Nil
  show ?case by simp
next
  case (Cons b bs)
  show ?case
    by (simp add: Cons.IH on_canExecute_keeps)
       (simp add: on_canExecute_def disabled_set_disabled)
qed

lemma on_isExecuting_keeps:
  "commandOrCreator (on_isExecuting d b) = commandOrCreator d"
  "commandParams (on_isExecuting d b) = commandParams d"
  "handleDisabled (on_isExecuting d b) = handleDisabled d"
  "disabled (on_isExecuting d b) = disabled d"
  "command (on_isExecuting d b) = command d"
  "wired (on_isExecuting d b) = wired d"
  by (simp_all add: on_isExecuting_def)

lemma observe_isExecuting_keeps:
  "commandOrCreator (observe_isExecuting d bs) = commandOrCreator d
   \<and> commandParams (observe_isExecuting d bs) = commandParams d
   \<and> handleDisabled (observe_isExecuting d bs) = handleDisabled d
   \<and> disabled (observe_isExecuting d bs) = disabled d
   \<and> command (observe_isExecuting d bs) = command d
   \<and> wired (observe_isExecuting d bs) = wired d"
  unfolding observe_isExecuting_def
  by (induction bs arbitrary: d) (simp_all add: on_isExecuting_keeps)

lemma deliver_keeps:
  "commandOrCreator (deliver c c' d) = commandOrCreator d"
  "commandParams (deliver c c' d) = commandParams d"
  "command (deliver c c' d) = command d"
  "wired (deliver c c' d) = wired d"
  by (simp_all add: deliver_def observe_isExecuting_keeps observe_canExecute_keeps)

lemma ngOnInit_subscribe_keeps:
  "commandOrCreator (ngOnInit_subscribe c d) = commandOrCreator d"
  "commandParams (ngOnInit_subscribe c d) = commandParams d"
  "command (ngOnInit_subscribe c d) = Some (cmd_subscribe c)"
  "wired (ngOnInit_subscribe c d) = True"
  by (simp_all add: ngOnInit_subscribe_def Let_def observe_isExecuting_keeps
        observe_canExecute_keeps set_attrDisabled_keeps)

lemma disabled_ngOnInit_subscribe:
  "disabled (observe_canExecute (ngOnInit_subscribe c d) bs) =
     (if replay_canExecute (cmd_subscribe c) @ bs = [] then disabled d
      else \<not> last (replay_canExecute (cmd_subscribe c) @ bs))"
  by (simp add: ngOnInit_subscribe_def Let_def observe_isExecuting_keeps
        disabled_observe_canExecute observe_canExecute_keeps set_attrDisabled_keeps
        replay_canExecute_def)

lemma ngOnInit_cases:
  "(\<not> input_truthy (commandOrCreator d) \<and>
      ngOnInit d = (set_disabled True d,
                    Some (JsError ''ssvCommand: [ssvCommand] should be defined!'')))
   \<or> (\<exists>c. commandOrCreator d = CommandInstance c \<and>
        ngOnInit d = (ngOnInit_subscribe c (set_disabled True d), None))
   \<or> (\<exists>cr. commandOrCreator d = CreatorObject cr \<and>
        ngOnInit d =
          (ngOnInit_subscribe
             (new_Command (js_bind (execute cr) (host cr) [])
                (case canExecute cr of
                   CanFunction f \<Rightarrow> f (host cr) [js_or (commandParams d) (params cr)]
                 | CanValue e \<Rightarrow> e)
                (isAsync cr = Some True \<or> isAsync cr = None) False)
             ((set_disabled True d)\<lparr>commandParams := js_or (commandParams d) (params cr)\<rparr>),
           None))
   \<or> (\<exists>v. commandOrCreator d = Value v \<and> js_truthy v \<and>
        ngOnInit d = (set_disabled True d,
                      Some (JsError ''ssvCommand: [ssvCommand] is not defined properly!'')))"
  by (cases "commandOrCreator d")
     (simp_all add: ngOnInit_def Let_def set_disabled_keeps js_bind_def
        split: can_execute.splits)

lemma canExecute_emitted_grows:
  "\<exists>news. canExecute_emitted (cmd_step c ev) = canExecute_emitted c @ news
     \<and> (phase c = Unsubscribed \<longrightarrow> news = [])
     \<and> (phase (cmd_step c ev) = Unsubscribed \<longrightarrow> news = [])"
  by (cases ev)
     (simp_all add: cmd_subscribe_def cmd_execute_def cmd_settle_def cmd_gateUpdate_def
        cmd_unsubscribe_def set_isExecuting_def recompute_def Let_def
        split: executability.splits)

lemma received_append:
  assumes "take (length (canExecute_emitted c0)) (canExecute_emitted c) = canExecute_emitted c0"
    and "canExecute_emitted c' = canExecute_emitted c @ news"
  shows "take (length (canExecute_emitted c0)) (canExecute_emitted c') = canExecute_emitted c0"
    and "received c0 c' = received c0 c @ news"
proof -
  have "length (take (length (canExecute_emitted c0)) (canExecute_emitted c))
          = length (canExecute_emitted c0)"
    using assms(1) by simp
  then have n: "length (canExecute_emitted c0) \<le> length (canExecute_emitted c)" by simp
  show "take (length (canExecute_emitted c0)) (canExecute_emitted c') = canExecute_emitted c0"
    using assms n by simp
  show "received c0 c' = received c0 c @ news"
    using assms(2) n by (simp add: received_def)
qed

lemma follows_deliver:
  assumes f: "follows c0 d" and c: "command d = Some c"
    and g: "canExecute_emitted c' = canExecute_emitted c @ news"
    and u: "phase c = Unsubscribed \<longrightarrow> news = []"
    and p: "phase c = Unsubscribed \<longrightarrow> phase c' = Unsubscribed"
  shows "follows c0 (deliver c c' (d\<lparr>command := Some c'\<rparr>))"
proof -
  from f c
  have t: "take (length (canExecute_emitted c0)) (canExecute_emitted c) = canExecute_emitted c0"
    and dd: "disabled d = (if received c0 c = [] then True else \<not> last (received c0 c))"
    and w: "wired d \<or> phase c = Unsubscribed"
    by (simp_all add: follows_def)
  note ra = received_append[OF t g]
  have dr: "drop (length (canExecute_emitted c)) (canExecute_emitted c') = news"
    by (simp add: g)
  have dis: "disabled (deliver c c' (d\<lparr>command := Some c'\<rparr>)) =
      (if wired d \<and> news \<noteq> [] then \<not> last news else disabled d)"
    by (simp add: deliver_def dr observe_isExecuting_keeps disabled_observe_canExecute)
  have "disabled (deliver c c' (d\<lparr>command := Some c'\<rparr>)) =
      (if received c0 c' = [] then True else \<not> last (received c0 c'))"
  proof (cases "news = []")
    case True
    then show ?thesis using dis dd ra(2) by simp
  next
    case False
    with u w have "wired d" by auto
    with False dis ra(2) show ?thesis by simp
  qed
  moreover have "wired d \<or> phase c' = Unsubscribed" using w p by auto
  ultimately show ?thesis
    using ra(1) by (simp add: follows_def deliver_keeps)
qed

lemma phase_stays_unsubscribed:
  "phase c = Unsubscribed \<Longrightarrow> phase (cmd_step c ev) = Unsubscribed"
  using frozen_step[of c ev] by simp

lemma follows_command_event: "follows c0 d \<Longrightarrow> follows c0 (command_event d ev)"
proof -
  assume t: "follows c0 d"
  then obtain c where c: "command d = Some c"
    by (auto simp: follows_def split: option.splits)
  from canExecute_emitted_grows[of c ev] obtain news where
    n: "canExecute_emitted (cmd_step c ev) = canExecute_emitted c @ news"
       "phase c = Unsubscribed \<longrightarrow> news = []"
    by blast
  have "follows c0 (deliver c (cmd_step c ev) (d\<lparr>command := Some (cmd_step c ev)\<rparr>))"
    by (rule follows_deliver[OF t c n]) (simp add: phase_stays_unsubscribed)
  then show ?thesis by (simp add: command_event_def c Let_def)
qed

lemma onClick_is_command_event:
  "command d = Some c \<Longrightarrow>
     fst (onClick d) =
       command_event d (Execute (if isArray (commandParams d) then spread (commandParams d)
                                 else [commandParams d]))"
  by (simp add: onClick_def command_event_def Let_def)

lemma follows_step:
  "follows c0 d \<Longrightarrow> \<not> is_input_write ev \<Longrightarrow> follows c0 (dir_step d ev)"
proof (cases ev)
  case Click
  assume t: "follows c0 d"
  then obtain c where c: "command d = Some c"
    by (auto simp: follows_def split: option.splits)
  show ?thesis unfolding Click
    using onClick_is_command_event[OF c] follows_command_event[OF t] by simp
next
  case Destroy
  assume t: "follows c0 d"
  then show ?thesis unfolding Destroy
    by (auto simp: follows_def received_def ngOnDestroy_def cmd_unsubscribe_def
          split: option.splits)
next
  case (CommandEvent e)
  assume "follows c0 d"
  then show ?thesis unfolding CommandEvent by (simp add: follows_command_event)
next
  case (SetDisabled v)
  assume "\<not> is_input_write ev"
  then show ?thesis unfolding SetDisabled by simp
next
  case (SetParams v)
  assume "follows c0 d"
  then show ?thesis unfolding SetParams
    by (auto simp: follows_def split: option.splits)
qed

lemma follows_run:
  "follows c0 d \<Longrightarrow> \<forall>ev\<in>set evs. \<not> is_input_write ev \<Longrightarrow> follows c0 (dir_run d evs)"
  unfolding dir_run_def by (induction evs arbitrary: d) (simp_all add: follows_step)

lemma follows_ngOnInit_subscribe:
  assumes "disabled d"
  shows "follows (cmd_subscribe c) (ngOnInit_subscribe c d)"
  using disabled_ngOnInit_subscribe[of c d "[]"] assms
  by (simp add: follows_def received_def ngOnInit_subscribe_keeps observe_canExecute_def)

lemma received_last:
  assumes "signal_inv c0" and "phase c0 = Subscribed"
    and "take (length (canExecute_emitted c0)) (canExecute_emitted c) = canExecute_emitted c0"
  shows "received c0 c \<noteq> [] \<and> last (received c0 c) = last (canExecute_emitted c)"
proof -
  from assms(1,2) have e: "canExecute_emitted c0 \<noteq> []"
    and l: "last (canExecute_emitted c0) = cmd_canExecute c0"
    by (simp_all add: signal_inv_def)
  have a: "canExecute_emitted c =
      canExecute_emitted c0 @ drop (length (canExecute_emitted c0)) (canExecute_emitted c)"
    using append_take_drop_id[of "length (canExecute_emitted c0)" "canExecute_emitted c"] assms(3)
    by simp
  have r: "received c0 c =
      [cmd_canExecute c0] @ drop (length (canExecute_emitted c0)) (canExecute_emitted c)"
    using assms(2) by (simp add: received_def replay_canExecute_def)
  show ?thesis
  proof (cases "drop (length (canExecute_emitted c0)) (canExecute_emitted c) = []")
    case True
    with a have "canExecute_emitted c = canExecute_emitted c0" by simp
    with True r l show ?thesis by simp
  next
    case False
    have "last (canExecute_emitted c) =
        last (drop (length (canExecute_emitted c0)) (canExecute_emitted c))"
      using False a last_appendR by metis
    with False r show ?thesis by simp
  qed
qed

lemma set_disabled_attr:
  "attr_ok d \<Longrightarrow> attr_ok (set_disabled v d)"
  "attr_ok d \<Longrightarrow> attrDisabled (set_disabled True d) = Some True"
  "attrDisabled d = Some (disabled d) \<Longrightarrow>
     attrDisabled (set_disabled v d) = Some (disabled (set_disabled v d))"
  by (auto simp: attr_ok_def set_disabled_def set_attrDisabled_def Let_def)

lemma observe_canExecute_attr:
  "attrDisabled d = Some (disabled d) \<Longrightarrow>
     attrDisabled (observe_canExecute d bs) = Some (disabled (observe_canExecute d bs))"
  unfolding observe_canExecute_def
  by (induction bs arbitrary: d) (simp_all add: on_canExecute_def set_disabled_attr(3))

lemma observe_canExecute_attr_ok: "attr_ok d \<Longrightarrow> attr_ok (observe_canExecute d bs)"
  unfolding observe_canExecute_def
  by (induction bs arbitrary: d) (simp_all add: on_canExecute_def set_disabled_attr(1))

lemma observe_isExecuting_attr:
  "attrDisabled (observe_isExecuting d bs) = attrDisabled d"
  unfolding observe_isExecuting_def
  by (induction bs arbitrary: d) (simp_all add: on_isExecuting_def)

lemma attr_ok_step: "attr_ok d \<Longrightarrow> attr_ok (dir_step d ev)"
proof -
  assume a: "attr_ok d"
  have upd: "\<And>x. attr_ok (d\<lparr>command := x\<rparr>)" "\<And>x. attr_ok (d\<lparr>commandParams := x\<rparr>)"
    "\<And>x y. attr_ok (d\<lparr>wired := x, command := y\<rparr>)" "\<And>x. attr_ok (d\<lparr>wired := x\<rparr>)"
    using a by (simp_all add: attr_ok_def)
  have del: "\<And>c c' x. attr_ok (deliver c c' (d\<lparr>command := x\<rparr>))"
    using observe_canExecute_attr_ok[OF upd(1)]
    by (simp add: deliver_def attr_ok_def observe_isExecuting_attr observe_isExecuting_keeps)
  show ?thesis
  proof (cases ev)
    case Click
    then show ?thesis using a del by (simp add: onClick_def Let_def split: option.splits)
  next
    case Destroy
    then show ?thesis using upd by (simp add: ngOnDestroy_def Let_def split: option.splits)
  next
    case (CommandEvent e)
    then show ?thesis using a del by (simp add: command_event_def Let_def split: option.splits)
  next
    case (SetDisabled v)
    then show ?thesis using a by (simp add: set_disabled_attr(1))
  next
    case (SetParams v)
    then show ?thesis using upd by simp
  qed
qed

lemma attr_ok_run: "attr_ok d \<Longrightarrow> attr_ok (dir_run d evs)"
  unfolding dir_run_def by (induction evs arbitrary: d) (simp_all add: attr_ok_step)

lemma attr_synced_step:
  assumes a: "attrDisabled d = Some (disabled d)"
  shows "attrDisabled (dir_step d ev) = Some (disabled (dir_step d ev))"
proof -
  have del: "\<And>c c' x. attrDisabled (deliver c c' (d\<lparr>command := x\<rparr>))
      = Some (disabled (deliver c c' (d\<lparr>command := x\<rparr>)))"
    using observe_canExecute_attr[of "d\<lparr>command := x\<rparr>" for x] a
    by (simp add: deliver_def observe_isExecuting_attr observe_isExecuting_keeps)
  show ?thesis
  proof (cases ev)
    case Click
    then show ?thesis using a del by (simp add: onClick_def Let_def split: option.splits)
  next
    case Destroy
    then show ?thesis using a by (simp add: ngOnDestroy_def Let_def split: option.splits)
  next
    case (CommandEvent e)
    then show ?thesis using a del by (simp add: command_event_def Let_def split: option.splits)
  next
    case (SetDisabled v)
    then show ?thesis using a by (simp add: set_disabled_attr(3))
  next
    case (SetParams v)
    then show ?thesis using a by simp
  qed
qed

lemma attr_synced_run:
  "attrDisabled d = Some (disabled d) \<Longrightarrow>
     attrDisabled (dir_run d evs) = Some (disabled (dir_run d evs))"
  unfolding dir_run_def by (induction evs arbitrary: d) (simp_all add: attr_synced_step)

lemma attr_synced_ngOnInit_subscribe:
  assumes "attrDisabled d = Some (disabled d)"
  shows "attrDisabled (ngOnInit_subscribe c d) = Some (disabled (ngOnInit_subscribe c d))"
proof -
  let ?d1 = "d\<lparr>command := Some (cmd_subscribe c), wired := True\<rparr>"
  have "attrDisabled ?d1 = Some (disabled ?d1)" using assms by simp
  from observe_canExecute_attr[OF this, of "replay_canExecute (cmd_subscribe c)"] assms
  show ?thesis
    by (simp add: ngOnInit_subscribe_def Let_def observe_isExecuting_attr
          observe_isExecuting_keeps)
qed

lemma attr_ok_new: "attr_ok (new_CommandDirective inp ps h)"
  by (simp add: attr_ok_def new_CommandDirective_def)

lemma execute_calls:
  "phase c = Subscribed \<Longrightarrow> \<not> busy c \<Longrightarrow>
     calls (cmd_execute c args) = calls c @ [(args, action c JUndefined args)]"
  by (auto simp add: busy_def cmd_execute_def set_isExecuting_def recompute_def Let_def)

lemma subscribe_new:
  "phase (cmd_subscribe (new_Command a g s al)) = Subscribed"
  "calls (cmd_subscribe (new_Command a g s al)) = []"
  "action (cmd_subscribe (new_Command a g s al)) = a"
  "cmd_isAsync (cmd_subscribe (new_Command a g s al)) = s"
  "executabilityGate (cmd_subscribe (new_Command a g s al)) = g"
  "isExecuting (cmd_subscribe (new_Command a g s al)) = False"
  by (simp_all add: cmd_subscribe_def new_Command_def Let_def)

lemma onClick_Some:
  "command d = Some c \<Longrightarrow>
     snd (onClick d) = None \<and>
     command (fst (onClick d)) =
       Some (cmd_execute c (if isArray (commandParams d) then spread (commandParams d)
                            else [commandParams d]))"
  by (simp add: onClick_def Let_def deliver_keeps)

lemma example_init:
  "snd (ngOnInit example_directive) = None"
  "commandParams (fst (ngOnInit example_directive)) = JArr [JNum 7]"
  "command (fst (ngOnInit example_directive)) =
     Some (cmd_subscribe (new_Command (js_bind echo (JObj 1) []) (Fixed True) True False))"
  using ngOnInit_cases[of example_directive]
  by (simp_all add: example_directive_def example_creator_def example_gate_def
        new_CommandDirective_def js_or_def ngOnInit_subscribe_keeps)

lemma example_clicked:
  "map_option canExecute_emitted
     (command (dir_run (fst (ngOnInit example_directive)) [Click])) = Some [True, False]"
  "map_option canExecute_emitted
     (command (dir_run (fst (ngOnInit example_directive)) [Click, CommandEvent (Settle Resolved)]))
     = Some [True, False, True]"
  by (simp_all add: dir_run_def onClick_def command_event_def deliver_keeps example_init
        cmd_subscribe_def cmd_execute_def cmd_settle_def set_isExecuting_def recompute_def
        new_Command_def Let_def)

text \<open>
  Claim C5. \<open>unsubscribe\<close> is idempotent, on any command, subscribed or not. After it,
  whatever events follow, \<open>execute\<close> returns the state unchanged, the action is never
  invoked and neither signal pushes a value. \<open>ngOnDestroy\<close> throws nothing, also on a
  directive whose \<open>_command\<close> was never set, and a second call changes nothing; a click
  after it invokes no action.
\<close>

theorem unsubscribe_safe:
  "let u = cmd_unsubscribe c; c' = cmd_run u evs in
     cmd_unsubscribe u = u \<and>
     cmd_execute c' args = c' \<and>
     calls c' = calls c \<and>
     canExecute_emitted c' = canExecute_emitted c \<and>
     isExecuting_emitted c' = isExecuting_emitted c \<and>
     snd (ngOnDestroy d) = None \<and>
     ngOnDestroy (fst (ngOnDestroy d)) = ngOnDestroy d \<and>
     ngOnDestroy (new_CommandDirective inp ps h) = (new_CommandDirective inp ps h, None) \<and>
     map_option calls (command (fst (onClick (fst (ngOnDestroy d))))) =
       map_option calls (command d)"
proof -
  define u where "u = cmd_unsubscribe c"
  define c' where "c' = cmd_run u evs"
  have pu: "phase u = Unsubscribed" by (simp add: u_def cmd_unsubscribe_def)
  have fr: "phase c' = Unsubscribed" "calls c' = calls u"
    "canExecute_emitted c' = canExecute_emitted u"
    "isExecuting_emitted c' = isExecuting_emitted u"
    using frozen_run[OF pu, of evs] by (simp_all add: c'_def)
  have 1: "cmd_unsubscribe u = u" by (simp add: u_def cmd_unsubscribe_def)
  have 2: "cmd_execute c' args = c'" using fr(1) by (simp add: cmd_execute_def)
  have 3: "calls c' = calls c" "canExecute_emitted c' = canExecute_emitted c"
    "isExecuting_emitted c' = isExecuting_emitted c"
    using fr by (simp_all add: u_def cmd_unsubscribe_def)
  have 4: "snd (ngOnDestroy d) = None"
    by (simp add: ngOnDestroy_def Let_def split: option.splits)
  have 5: "ngOnDestroy (fst (ngOnDestroy d)) = ngOnDestroy d"
    by (cases "command d") (simp_all add: ngOnDestroy_def Let_def cmd_unsubscribe_def)
  have 6: "ngOnDestroy (new_CommandDirective inp ps h) = (new_CommandDirective inp ps h, None)"
    by (simp add: ngOnDestroy_def new_CommandDirective_def)
  have 7: "map_option calls (command (fst (onClick (fst (ngOnDestroy d))))) =
       map_option calls (command d)"
  proof (cases "command d")
    case None
    then show ?thesis by (simp add: ngOnDestroy_def onClick_def)
  next
    case (Some c0)
    then have "command (fst (ngOnDestroy d)) = Some (cmd_unsubscribe c0)"
      by (simp add: ngOnDestroy_def)
    from onClick_Some[OF this] Some show ?thesis
      by (simp add: cmd_execute_def cmd_unsubscribe_def)
  qed
  from 1 2 3 4 5 6 7 show ?thesis
    unfolding Let_def u_def[symmetric] c'_def[symmetric] by simp
qed

theorem unsubscribe_safe_witness:
  "calls (cmd_run (cmd_unsubscribe (cmd_run example_command [Subscribe, Execute [JNum 1]]))
            [Execute [JNum 2], Settle Resolved, GateUpdate False, Subscribe, Execute []])
     = [([JNum 1], JArr [JUndefined, JNum 1])] \<and>
   isExecuting_emitted
     (cmd_run (cmd_unsubscribe (cmd_run example_command [Subscribe, Execute [JNum 1]]))
            [Execute [JNum 2], Settle Resolved, GateUpdate False, Subscribe, Execute []])
     = [False, True] \<and>
   snd (ngOnDestroy (new_CommandDirective (Value JUndefined) JUndefined True)) = None \<and>
   snd (ngOnDestroy (fst (ngOnDestroy (example_clickable JNull)))) = None"
proof -
  let ?c = "cmd_run example_command [Subscribe, Execute [JNum 1]]"
  have k: "calls ?c = [([JNum 1], JArr [JUndefined, JNum 1])]"
    and e: "isExecuting_emitted ?c = [False, True]"
    by (simp_all add: cmd_eval)
  from unsubscribe_safe[of ?c
         "[Execute [JNum 2], Settle Resolved, GateUpdate False, Subscribe, Execute []]"
         "[]" "new_CommandDirective (Value JUndefined) JUndefined True"]
       unsubscribe_safe[of ?c "[]" "[]" "fst (ngOnDestroy (example_clickable JNull))"]
       k e
  show ?thesis by (simp add: Let_def)
qed

text \<open>
  Claim C6. \<open>ngOnInit\<close> throws when the input is falsy (undefined among others:
  ``should be defined'') and when it is neither a Command instance nor a well-formed creator
  (``is not defined properly''); it throws in no other case, and when it throws no command
  is installed and nothing is subscribed.
\<close>

theorem ngOnInit_fails_fast:
  "(\<not> input_truthy (commandOrCreator d) \<longrightarrow>
      snd (ngOnInit d) = Some (JsError ''ssvCommand: [ssvCommand] should be defined!'')) \<and>
   (input_truthy (commandOrCreator d) \<and> isCommand (commandOrCreator d) = None
      \<and> isCommandCreator (commandOrCreator d) = None \<longrightarrow>
      snd (ngOnInit d) = Some (JsError ''ssvCommand: [ssvCommand] is not defined properly!'')) \<and>
   (snd (ngOnInit d) = None \<longleftrightarrow>
      isCommand (commandOrCreator d) \<noteq> None \<or> isCommandCreator (commandOrCreator d) \<noteq> None) \<and>
   (snd (ngOnInit d) \<noteq> None \<longrightarrow>
      command (fst (ngOnInit d)) = command d \<and> wired (fst (ngOnInit d)) = wired d)"
  using ngOnInit_cases[of d]
  by (elim disjE exE conjE) (cases "commandOrCreator d"; simp add: set_disabled_keeps)+

theorem ngOnInit_fails_fast_witness:
  "\<not> input_truthy (commandOrCreator (new_CommandDirective (Value JUndefined) JUndefined True)) \<and>
   snd (ngOnInit (new_CommandDirective (Value JUndefined) JUndefined True))
     = Some (JsError ''ssvCommand: [ssvCommand] should be defined!'') \<and>
   input_truthy (commandOrCreator (new_CommandDirective (Value (JObj 3)) JUndefined True)) \<and>
   snd (ngOnInit (new_CommandDirective (Value (JObj 3)) JUndefined True))
     = Some (JsError ''ssvCommand: [ssvCommand] is not defined properly!'') \<and>
   snd (ngOnInit example_directive) = None"
  using ngOnInit_fails_fast[of "new_CommandDirective (Value JUndefined) JUndefined True"]
        ngOnInit_fails_fast[of "new_CommandDirective (Value (JObj 3)) JUndefined True"]
        ngOnInit_fails_fast[of example_directive]
  by (simp add: new_CommandDirective_def example_directive_def)

text \<open>
  Claim C7. With a command in place, \<open>onClick\<close> throws nothing and calls
  \<open>execute\<close> with the elements of \<open>commandParams\<close> as separate arguments when it is an
  array, with \<open>commandParams\<close> itself as the only argument otherwise, \<open>undefined\<close>
  included. When the command accepts the call, the action receives exactly these arguments.
\<close>

theorem onClick_passes_params:
  assumes "command d = Some c"
  shows "snd (onClick d) = None \<and>
         (\<forall>xs. commandParams d = JArr xs \<longrightarrow>
            command (fst (onClick d)) = Some (cmd_execute c xs)) \<and>
         (\<not> isArray (commandParams d) \<longrightarrow>
            command (fst (onClick d)) = Some (cmd_execute c [commandParams d])) \<and>
         (commandParams d = JUndefined \<longrightarrow>
            command (fst (onClick d)) = Some (cmd_execute c [JUndefined])) \<and>
         (phase c = Subscribed \<and> \<not> busy c \<longrightarrow>
            (\<forall>xs. commandParams d = JArr xs \<longrightarrow>
               map_option calls (command (fst (onClick d))) =
                 Some (calls c @ [(xs, action c JUndefined xs)])) \<and>
            (\<not> isArray (commandParams d) \<longrightarrow>
               map_option calls (command (fst (onClick d))) =
                 Some (calls c @ [([commandParams d], action c JUndefined [commandParams d])])))"
  using onClick_Some[OF assms] by (auto simp: execute_calls)

theorem onClick_passes_params_witness:
  "command (example_clickable (JArr [JNum 1, JStr ''a''])) = Some (cmd_subscribe example_command) \<and>
   map_option calls (command (fst (onClick (example_clickable (JArr [JNum 1, JStr ''a''])))))
     = Some [([JNum 1, JStr ''a''], JArr [JUndefined, JNum 1, JStr ''a''])] \<and>
   map_option calls (command (fst (onClick (example_clickable JUndefined))))
     = Some [([JUndefined], JArr [JUndefined, JUndefined])]"
proof -
  let ?c = "cmd_subscribe example_command"
  have c: "\<And>ps. command (example_clickable ps) = Some ?c"
    and p: "\<And>ps. commandParams (example_clickable ps) = ps"
    by (simp_all add: example_clickable_def new_CommandDirective_def)
  have s: "phase ?c = Subscribed" "\<not> busy ?c" "calls ?c = []" "action ?c = echo"
    by (simp_all add: busy_def cmd_eval)
  from onClick_passes_params[OF c, of "JArr [JNum 1, JStr ''a'']"]
       onClick_passes_params[OF c, of JUndefined] c p s
  show ?thesis by (auto simp add: echo_def)
qed

text \<open>
  Claim C8 as stated fails: the parameters are not bound into the action. For the
  example creator, with \<open>params = [7]\<close>, the action of the command built, called without
  arguments, passes no argument to \<open>execute\<close>; the function with the parameters bound
  would pass 7.
\<close>

theorem creator_params_curried_counterexample:
  "action (the (command (fst (ngOnInit example_directive)))) JUndefined [] = JArr [JObj 1] \<and>
   js_bind (execute example_creator) (host example_creator) (spread (params example_creator))
       JUndefined [] = JArr [JObj 1, JNum 7] \<and>
   action (the (command (fst (ngOnInit example_directive)))) JUndefined [] \<noteq>
   js_bind (execute example_creator) (host example_creator) (spread (params example_creator))
       JUndefined []"
  by (simp add: example_init subscribe_new js_bind_def echo_def example_creator_def)

text \<open>
  Claim C8, as the code has it. For a creator input \<open>ngOnInit\<close> builds a command whose
  action is the creator's \<open>execute\<close> bound to \<open>host\<close> only, with no argument bound: it
  passes on the arguments of each call. The parameters, the directive's own if truthy and
  the creator's otherwise, are stored in \<open>commandParams\<close> and handed over by each click.
  The gate is \<open>canExecute\<close> called on \<open>host\<close> with these parameters as its one
  argument when it is a function, \<open>canExecute\<close> itself otherwise.
\<close>

theorem ngOnInit_creator_factory:
  assumes "commandOrCreator d = CreatorObject cr"
  shows "let p = js_or (commandParams d) (params cr);
             args = (if isArray p then spread p else [p]);
             d' = fst (ngOnInit d)
         in snd (ngOnInit d) = None \<and>
            commandParams d' = p \<and>
            map_option action (command d') = Some (js_bind (execute cr) (host cr) []) \<and>
            (\<forall>this xs. map_option (\<lambda>c. action c this xs) (command d')
                          = Some (execute cr (host cr) xs)) \<and>
            map_option executabilityGate (command d') =
              Some (case canExecute cr of
                      CanFunction f \<Rightarrow> f (host cr) [p]
                    | CanValue e \<Rightarrow> e) \<and>
            map_option calls (command d') = Some [] \<and>
            map_option calls (command (fst (onClick d'))) =
              Some [(args, execute cr (host cr) args)]"
proof -
  define p where "p = js_or (commandParams d) (params cr)"
  define g where "g = (case canExecute cr of
                      CanFunction f \<Rightarrow> f (host cr) [js_or (commandParams d) (params cr)]
                    | CanValue e \<Rightarrow> e)"
  define c where "c = cmd_subscribe (new_Command (js_bind (execute cr) (host cr) []) g
                        (isAsync cr = Some True \<or> isAsync cr = None) False)"
  define d' where "d' = fst (ngOnInit d)"
  have r: "snd (ngOnInit d) = None" "command d' = Some c" "commandParams d' = p"
    using ngOnInit_cases[of d] assms
    by (auto simp: d'_def c_def g_def p_def ngOnInit_subscribe_keeps)
  have c: "phase c = Subscribed" "calls c = []" "action c = js_bind (execute cr) (host cr) []"
    "executabilityGate c = g" "\<not> isExecuting c"
    by (simp_all add: c_def subscribe_new)
  have nb: "\<not> busy c" using c(5) by (simp add: busy_def)
  have click: "map_option calls (command (fst (onClick d'))) =
      Some [(if isArray p then spread p else [p],
             execute cr (host cr) (if isArray p then spread p else [p]))]"
    using onClick_Some[OF r(2)] execute_calls[OF c(1) nb] c(2,3) r(3)
    by (simp add: js_bind_def)
  have gp: "g = (case canExecute cr of
                      CanFunction f \<Rightarrow> f (host cr) [p]
                    | CanValue e \<Rightarrow> e)"
    unfolding g_def p_def ..
  show ?thesis
    unfolding Let_def p_def[symmetric] d'_def[symmetric] gp[symmetric]
    using r c click by (simp add: js_bind_def)
qed

theorem ngOnInit_creator_factory_witness:
  "commandOrCreator example_directive = CreatorObject example_creator \<and>
   commandParams (fst (ngOnInit example_directive)) = JArr [JNum 7] \<and>
   map_option executabilityGate (command (fst (ngOnInit example_directive)))
     = Some (Fixed True) \<and>
   map_option calls (command (fst (onClick (fst (ngOnInit example_directive)))))
     = Some [([JNum 7], JArr [JObj 1, JNum 7])]"
proof -
  have h: "commandOrCreator example_directive = CreatorObject example_creator"
    by (simp add: example_directive_def new_CommandDirective_def)
  have p: "commandParams example_directive = JUndefined"
    by (simp add: example_directive_def new_CommandDirective_def)
  from ngOnInit_creator_factory[OF h] h p
  show ?thesis
    by (simp add: Let_def js_or_def example_creator_def example_gate_def echo_def)
qed

lemma follows_after_init:
  assumes "disabled d0" and "\<forall>ev\<in>set evs. \<not> is_input_write ev"
  shows "\<exists>c'. command (dir_run (ngOnInit_subscribe c d0) evs) = Some c' \<and>
           disabled (dir_run (ngOnInit_subscribe c d0) evs) =
             (if received (cmd_subscribe c) c' = [] then True
              else \<not> last (received (cmd_subscribe c) c')) \<and>
           (signal_inv (cmd_subscribe c) \<and> phase (cmd_subscribe c) = Subscribed \<longrightarrow>
              disabled (dir_run (ngOnInit_subscribe c d0) evs) = (\<not> last (canExecute_emitted c')))"
proof -
  let ?d = "dir_run (ngOnInit_subscribe c d0) evs"
  have f: "follows (cmd_subscribe c) ?d"
    by (rule follows_run[OF follows_ngOnInit_subscribe[OF assms(1)] assms(2)])
  then obtain c' where c': "command ?d = Some c'"
    by (auto simp: follows_def split: option.splits)
  from f c'
  have t: "take (length (canExecute_emitted (cmd_subscribe c))) (canExecute_emitted c')
             = canExecute_emitted (cmd_subscribe c)"
    and dd: "disabled ?d = (if received (cmd_subscribe c) c' = [] then True
                            else \<not> last (received (cmd_subscribe c) c'))"
    by (simp_all add: follows_def)
  have "signal_inv (cmd_subscribe c) \<and> phase (cmd_subscribe c) = Subscribed \<longrightarrow>
          disabled ?d = (\<not> last (canExecute_emitted c'))"
    using received_last[OF _ _ t] dd by auto
  with c' dd show ?thesis by blast
qed

lemma attr_after_init:
  assumes "attrDisabled d0 = Some (disabled d0)"
  shows "attrDisabled (dir_run (ngOnInit_subscribe c d0) evs)
           = Some (disabled (dir_run (ngOnInit_subscribe c d0) evs))"
  by (rule attr_synced_run[OF attr_synced_ngOnInit_subscribe[OF assms]])

text \<open>
  Claim C9 as stated fails: \<open>disabled\<close> is also an input of the directive (lines 88 to
  96). After the initialisation with the example creator the command has pushed
  \<open>canExecute = true\<close>; a write of true to the input then leaves \<open>disabled\<close> true
  although the last \<open>canExecute\<close> value is true.
\<close>

theorem disabled_input_counterexample:
  "last (canExecute_emitted
      (the (command (dir_run (fst (ngOnInit example_directive)) [SetDisabled True])))) \<and>
   disabled (dir_run (fst (ngOnInit example_directive)) [SetDisabled True])"
  by (simp add: dir_run_def disabled_set_disabled set_disabled_keeps example_init
        cmd_subscribe_def new_Command_def)

text \<open>
  Claim C9, as the code has it. \<open>ngOnInit\<close> first sets \<open>disabled\<close>, and with it the host
  binding \<^verbatim>\<open>attr.disabled\<close>, to true; both stay true when it throws, and the
  subscriptions are made on such a state. Every \<open>canExecute\<close> value received then sets
  \<open>disabled\<close> to its negation. So after any clicks, command transitions, parameter
  changes and teardown, as long as the \<open>disabled\<close> input is not written from outside,
  \<open>disabled\<close> is the negation of the last \<open>canExecute\<close> value received since the
  subscription, true if there was none; for a command in a consistent state that is
  subscribed (as every command is that was constructed and then used in any way), this is
  the last value the command pushed. This holds for any command, shared or built from a
  creator. A write to the input sets \<open>disabled\<close> to the value written,
  until the next \<open>canExecute\<close> value arrives. The host binding equals \<open>disabled\<close>
  throughout, writes to the input included.
\<close>

theorem disabled_tracks_canExecute:
  "(snd (ngOnInit d) \<noteq> None \<longrightarrow>
      disabled (fst (ngOnInit d)) \<and>
      (attr_ok d \<longrightarrow> attrDisabled (fst (ngOnInit d)) = Some True)) \<and>
   (snd (ngOnInit d) = None \<longrightarrow>
      (\<exists>c d0. fst (ngOnInit d) = ngOnInit_subscribe c d0 \<and> disabled d0 \<and>
         (attr_ok d \<longrightarrow> attrDisabled d0 = Some True) \<and>
         command (fst (ngOnInit d)) = Some (cmd_subscribe c) \<and>
         (\<forall>bs. disabled (observe_canExecute (fst (ngOnInit d)) bs) =
            (if replay_canExecute (cmd_subscribe c) @ bs = [] then True
             else \<not> last (replay_canExecute (cmd_subscribe c) @ bs))) \<and>
         (\<forall>evs. (\<forall>ev\<in>set evs. \<not> is_input_write ev) \<longrightarrow>
            (\<exists>c'. command (dir_run (fst (ngOnInit d)) evs) = Some c' \<and>
               disabled (dir_run (fst (ngOnInit d)) evs) =
                 (if received (cmd_subscribe c) c' = [] then True
                  else \<not> last (received (cmd_subscribe c) c')) \<and>
               (signal_inv (cmd_subscribe c) \<and> phase (cmd_subscribe c) = Subscribed \<longrightarrow>
                  disabled (dir_run (fst (ngOnInit d)) evs)
                    = (\<not> last (canExecute_emitted c'))))))) \<and>
   (attr_ok d \<longrightarrow>
      (\<forall>evs. attrDisabled (dir_run (fst (ngOnInit d)) evs)
                = Some (disabled (dir_run (fst (ngOnInit d)) evs)))) \<and>
   disabled (dir_step d' (SetDisabled v)) = v \<and>
   (wired d' \<longrightarrow>
      disabled (observe_canExecute d' bs') = (if bs' = [] then disabled d' else \<not> last bs')) \<and>
   attr_ok (dir_run (new_CommandDirective inp ps h) evs0) \<and>
   signal_inv (cmd_subscribe (cmd_run (new_Command act gate is_async allow) evs1))"
proof -
  have t: "disabled (set_disabled True d)" by (simp add: disabled_set_disabled)
  have ta: "attr_ok d \<longrightarrow> attrDisabled (set_disabled True d) = Some True"
    by (simp add: set_disabled_attr(2))
  have tail: "disabled (dir_step d' (SetDisabled v)) = v \<and>
     (wired d' \<longrightarrow>
        disabled (observe_canExecute d' bs') = (if bs' = [] then disabled d' else \<not> last bs')) \<and>
     attr_ok (dir_run (new_CommandDirective inp ps h) evs0) \<and>
     signal_inv (cmd_subscribe (cmd_run (new_Command act gate is_async allow) evs1))"
    using signal_inv_step[OF signal_inv_run[OF signal_inv_new], of act gate is_async allow evs1
            Subscribe]
    by (simp add: disabled_set_disabled disabled_observe_canExecute attr_ok_run[OF attr_ok_new])
  have thrown: ?thesis if r: "ngOnInit d = (set_disabled True d, Some e)" for e
  proof -
    have "attr_ok d \<longrightarrow>
      (\<forall>evs. attrDisabled (dir_run (fst (ngOnInit d)) evs)
                = Some (disabled (dir_run (fst (ngOnInit d)) evs)))"
      using attr_synced_run[of "set_disabled True d"] t ta by (simp add: r)
    with r t ta tail show ?thesis by simp
  qed
  have subscribed: ?thesis
    if r: "ngOnInit d = (ngOnInit_subscribe c d0, None)" and d0: "disabled d0"
      and a0: "attr_ok d \<longrightarrow> attrDisabled d0 = Some True" for c d0
  proof -
    have 1: "command (fst (ngOnInit d)) = Some (cmd_subscribe c)"
      by (simp add: r ngOnInit_subscribe_keeps)
    have 2: "\<forall>bs. disabled (observe_canExecute (fst (ngOnInit d)) bs) =
            (if replay_canExecute (cmd_subscribe c) @ bs = [] then True
             else \<not> last (replay_canExecute (cmd_subscribe c) @ bs))"
      using d0 by (simp add: r disabled_ngOnInit_subscribe)
    have 3: "\<forall>evs. (\<forall>ev\<in>set evs. \<not> is_input_write ev) \<longrightarrow>
            (\<exists>c'. command (dir_run (fst (ngOnInit d)) evs) = Some c' \<and>
               disabled (dir_run (fst (ngOnInit d)) evs) =
                 (if received (cmd_subscribe c) c' = [] then True
                  else \<not> last (received (cmd_subscribe c) c')) \<and>
               (signal_inv (cmd_subscribe c) \<and> phase (cmd_subscribe c) = Subscribed \<longrightarrow>
                  disabled (dir_run (fst (ngOnInit d)) evs)
                    = (\<not> last (canExecute_emitted c'))))"
      using follows_after_init[OF d0] by (simp add: r)
    have 4: "attr_ok d \<longrightarrow>
      (\<forall>evs. attrDisabled (dir_run (fst (ngOnInit d)) evs)
                = Some (disabled (dir_run (fst (ngOnInit d)) evs)))"
      using attr_after_init[of d0 c] a0 d0 by (simp add: r)
    have "\<exists>c d0. fst (ngOnInit d) = ngOnInit_subscribe c d0 \<and> disabled d0 \<and>
         (attr_ok d \<longrightarrow> attrDisabled d0 = Some True) \<and>
         command (fst (ngOnInit d)) = Some (cmd_subscribe c) \<and>
         (\<forall>bs. disabled (observe_canExecute (fst (ngOnInit d)) bs) =
            (if replay_canExecute (cmd_subscribe c) @ bs = [] then True
             else \<not> last (replay_canExecute (cmd_subscribe c) @ bs))) \<and>
         (\<forall>evs. (\<forall>ev\<in>set evs. \<not> is_input_write ev) \<longrightarrow>
            (\<exists>c'. command (dir_run (fst (ngOnInit d)) evs) = Some c' \<and>
               disabled (dir_run (fst (ngOnInit d)) evs) =
                 (if received (cmd_subscribe c) c' = [] then True
                  else \<not> last (received (cmd_subscribe c) c')) \<and>
               (signal_inv (cmd_subscribe c) \<and> phase (cmd_subscribe c) = Subscribed \<longrightarrow>
                  disabled (dir_run (fst (ngOnInit d)) evs)
                    = (\<not> last (canExecute_emitted c')))))"
      using r d0 a0 1 2 3 by (intro exI[of _ c] exI[of _ d0]) simp
    with r 4 tail show ?thesis by simp
  qed
  from ngOnInit_cases[of d] show ?thesis
  proof (elim disjE exE conjE)
    assume "ngOnInit d = (set_disabled True d,
                    Some (JsError ''ssvCommand: [ssvCommand] should be defined!''))"
    then show ?thesis by (rule thrown)
  next
    fix c assume "ngOnInit d = (ngOnInit_subscribe c (set_disabled True d), None)"
    then show ?thesis using t ta by (rule subscribed)
  next
    fix cr :: CommandCreator
    let ?c = "new_Command (js_bind (execute cr) (host cr) [])
                (case canExecute cr of
                   CanFunction f \<Rightarrow> f (host cr) [js_or (commandParams d) (params cr)]
                 | CanValue e \<Rightarrow> e)
                (isAsync cr = Some True \<or> isAsync cr = None) False"
    let ?d = "(set_disabled True d)\<lparr>commandParams := js_or (commandParams d) (params cr)\<rparr>"
    assume r: "ngOnInit d = (ngOnInit_subscribe ?c ?d, None)"
    have "disabled ?d" using t by simp
    moreover have "attr_ok d \<longrightarrow> attrDisabled ?d = Some True" using ta by simp
    ultimately show ?thesis using r by (intro subscribed)
  next
    assume "ngOnInit d = (set_disabled True d,
                      Some (JsError ''ssvCommand: [ssvCommand] is not defined properly!''))"
    then show ?thesis by (rule thrown)
  qed
qed

theorem disabled_tracks_canExecute_witness:
  "snd (ngOnInit example_directive) = None \<and>
   attr_ok example_directive \<and>
   \<not> disabled (fst (ngOnInit example_directive)) \<and>
   attrDisabled (fst (ngOnInit example_directive)) = Some False \<and>
   disabled (observe_canExecute (fst (ngOnInit example_directive)) [True, False]) \<and>
   disabled (dir_run (fst (ngOnInit example_directive)) [Click]) \<and>
   attrDisabled (dir_run (fst (ngOnInit example_directive)) [Click]) = Some True \<and>
   \<not> disabled (dir_run (fst (ngOnInit example_directive)) [Click, CommandEvent (Settle Resolved)]) \<and>
   snd (ngOnInit (new_CommandDirective (Value JNull) JUndefined True)) \<noteq> None \<and>
   disabled (fst (ngOnInit (new_CommandDirective (Value JNull) JUndefined True))) \<and>
   attrDisabled (fst (ngOnInit (new_CommandDirective (Value JNull) JUndefined True))) = Some True"
proof -
  let ?r = "ngOnInit example_directive"
  let ?k = "cmd_subscribe (new_Command (js_bind echo (JObj 1) []) (Fixed True) True False)"
  let ?bad = "new_CommandDirective (Value JNull) JUndefined True"
  have ok: "snd ?r = None" by (rule example_init)
  have ao: "attr_ok example_directive" by (simp add: example_directive_def attr_ok_new)
  have rp: "replay_canExecute ?k = [True]"
    by (simp add: replay_canExecute_def cmd_subscribe_def new_Command_def)
  have si: "signal_inv ?k \<and> phase ?k = Subscribed"
    by (simp add: signal_inv_def cmd_subscribe_def new_Command_def)
  have nw: "\<forall>ev\<in>set [Click]. \<not> is_input_write ev"
    "\<forall>ev\<in>set [Click, CommandEvent (Settle Resolved)]. \<not> is_input_write ev"
    "\<forall>ev\<in>set []. \<not> is_input_write ev"
    by simp_all
  note inst = disabled_tracks_canExecute[of example_directive]
  from inst[THEN conjunct2, THEN conjunct1] ok
  obtain c where c: "command (fst ?r) = Some (cmd_subscribe c)"
    and a: "\<forall>bs. disabled (observe_canExecute (fst ?r) bs) =
            (if replay_canExecute (cmd_subscribe c) @ bs = [] then True
             else \<not> last (replay_canExecute (cmd_subscribe c) @ bs))"
    and f: "\<forall>evs. (\<forall>ev\<in>set evs. \<not> is_input_write ev) \<longrightarrow>
            (\<exists>c'. command (dir_run (fst ?r) evs) = Some c' \<and>
               disabled (dir_run (fst ?r) evs) =
                 (if received (cmd_subscribe c) c' = [] then True
                  else \<not> last (received (cmd_subscribe c) c')) \<and>
               (signal_inv (cmd_subscribe c) \<and> phase (cmd_subscribe c) = Subscribed \<longrightarrow>
                  disabled (dir_run (fst ?r) evs) = (\<not> last (canExecute_emitted c'))))"
    by blast
  from inst[THEN conjunct2, THEN conjunct2, THEN conjunct1] ao
  have at: "\<forall>evs. attrDisabled (dir_run (fst ?r) evs) = Some (disabled (dir_run (fst ?r) evs))"
    by blast
  from c have ck: "cmd_subscribe c = ?k" by (simp add: example_init)
  from a[rule_format, of "[]", unfolded ck rp]
       a[rule_format, of "[True, False]", unfolded ck rp]
  have 1: "\<not> disabled (fst ?r)" and 2: "disabled (observe_canExecute (fst ?r) [True, False])"
    by (simp_all add: observe_canExecute_def)
  from f[THEN spec, of "[Click]", THEN mp, OF nw(1), unfolded ck] si example_clicked(1)
  have 3: "disabled (dir_run (fst ?r) [Click])" by auto
  from f[THEN spec, of "[Click, CommandEvent (Settle Resolved)]", THEN mp, OF nw(2), unfolded ck]
    si example_clicked(2)
  have 4: "\<not> disabled (dir_run (fst ?r) [Click, CommandEvent (Settle Resolved)])" by auto
  from at[rule_format, of "[]"] 1 have 5: "attrDisabled (fst ?r) = Some False"
    by (simp add: dir_run_def)
  from at[rule_format, of "[Click]"] 3
  have 6: "attrDisabled (dir_run (fst ?r) [Click]) = Some True" by simp
  have bad: "snd (ngOnInit ?bad) \<noteq> None"
    by (simp add: ngOnInit_def Let_def new_CommandDirective_def set_disabled_keeps)
  from disabled_tracks_canExecute[of ?bad] bad attr_ok_new[of "Value JNull" JUndefined True]
  have 7: "disabled (fst (ngOnInit ?bad))" and 8: "attrDisabled (fst (ngOnInit ?bad)) = Some True"
    by simp_all
  from ok ao 1 2 3 4 5 6 bad 7 8 show ?thesis by simp
qed

text \<open>
  Claim C10. For a creator input, \<open>commandParams\<close> after \<open>ngOnInit\<close> is the directive's
  own value when that is truthy and the creator's \<open>params\<close> otherwise, in particular
  for undefined, null, 0, the empty string and false. The command built is asynchronous
  exactly when the creator's \<open>isAsync\<close> is true or undefined; false gives a synchronous
  one.
\<close>

theorem creator_params_precedence:
  assumes "commandOrCreator d = CreatorObject cr"
  shows "commandParams (fst (ngOnInit d)) =
           (if js_truthy (commandParams d) then commandParams d else params cr) \<and>
         (commandParams d \<in> {JUndefined, JNull, JNum 0, JStr [], JBool False} \<longrightarrow>
            commandParams (fst (ngOnInit d)) = params cr) \<and>
         map_option cmd_isAsync (command (fst (ngOnInit d))) =
           Some (isAsync cr = Some True \<or> isAsync cr = None) \<and>
         (isAsync cr = Some False \<longrightarrow>
            map_option cmd_isAsync (command (fst (ngOnInit d))) = Some False)"
  using ngOnInit_cases[of d] assms
  by (auto simp: ngOnInit_subscribe_keeps subscribe_new js_or_def)

theorem creator_params_precedence_witness:
  "commandOrCreator example_directive = CreatorObject example_creator \<and>
   commandParams example_directive \<in> {JUndefined, JNull, JNum 0, JStr [], JBool False} \<and>
   commandParams (fst (ngOnInit example_directive)) = JArr [JNum 7] \<and>
   map_option cmd_isAsync (command (fst (ngOnInit example_directive))) = Some True \<and>
   map_option cmd_isAsync
     (command (fst (ngOnInit
        (new_CommandDirective (CreatorObject (example_creator\<lparr>isAsync := Some False\<rparr>))
           (JArr []) True)))) = Some False \<and>
   commandParams (fst (ngOnInit
        (new_CommandDirective (CreatorObject (example_creator\<lparr>isAsync := Some False\<rparr>))
           (JArr []) True))) = JArr []"
proof -
  let ?d = "new_CommandDirective (CreatorObject (example_creator\<lparr>isAsync := Some False\<rparr>))
           (JArr []) True"
  have h: "commandOrCreator example_directive = CreatorObject example_creator"
    and p: "commandParams example_directive = JUndefined"
    by (simp_all add: example_directive_def new_CommandDirective_def)
  have h2: "commandOrCreator ?d = CreatorObject (example_creator\<lparr>isAsync := Some False\<rparr>)"
    and p2: "commandParams ?d = JArr []"
    by (simp_all add: new_CommandDirective_def)
  from creator_params_precedence[OF h] creator_params_precedence[OF h2] h p p2
  show ?thesis by (simp add: example_creator_def)
qed

end
